theory Spec2Isabelle
  imports Main "HOL-Library.Char_ord" "HOL-Library.List_Lexorder" "HOL-Library.Sublist"
begin

section \<open>Values, failures and host interaction\<close>

text \<open>
  Both modules of the repository are adapters over the scripting API of the host
  platform (\<open>system.db\<close>, \<open>system.user\<close>, \<open>system.security\<close>). The host is not part
  of the repository, so it is a parameter of every definition below: an arbitrary
  function that answers each call either with a value or with a failure. What the
  code does is observed through the sequence of host calls it makes.
\<close>

datatype pyval =
    PNone
  | PBool bool
  | PInt int
  | PStr string
  | PDataset "pyval list list"

text \<open>
  A raised exception. \<open>KeyError\<close> and \<open>TypeError\<close> are the ones the Python code
  can raise by itself (a missing dictionary key, \<open>str.join\<close> on a non-string);
  \<open>HostError\<close> stands for anything raised inside the host platform.
\<close>

datatype error =
    KeyError string
  | TypeError
  | HostError string

text \<open>
  A computation threads a state \<open>'s\<close> (the record of the host calls made so far) and
  either returns a value or raises; raising abandons the rest of the computation,
  as a Python exception that nobody catches does.
\<close>

type_synonym ('s, 'a) io = "'s \<Rightarrow> (error + 'a) \<times> 's"

definition ret :: "'a \<Rightarrow> ('s, 'a) io" where
  "ret x s = (Inr x, s)"

definition bnd :: "('s, 'a) io \<Rightarrow> ('a \<Rightarrow> ('s, 'b) io) \<Rightarrow> ('s, 'b) io" where
  "bnd m f s = (case m s of (Inl e, s') \<Rightarrow> (Inl e, s') | (Inr x, s') \<Rightarrow> f x s')"

section \<open>The database module (db.py)\<close>

subsection \<open>The host's stored-procedure call object\<close>

text \<open>
  The calls the module makes on \<open>system.db\<close> and on the call object that
  \<open>createSProcCall\<close> returns. Type tags are the integer type codes of
  \<open>system.db\<close>.
\<close>

datatype db_call =
    CreateSProcCall string string "string option" bool
  | RegisterInParam string int pyval
  | RegisterOutParam string int
  | RegisterReturnParam "int option"
  | ExecSProcCall
  | GetOutParamValue string
  | GetResultSet
  | GetReturnValue
  | GetUpdateCount

text \<open>
  The transcript of one invocation: every host call made, in order, with the
  host's answer to it.
\<close>

type_synonym transcript = "(db_call \<times> (error + pyval)) list"

text \<open>
  The host: its answer to a call may depend on everything that happened on the
  call object before. \<open>BIT\<close> is the constant \<open>system.db.BIT\<close>.
\<close>

record db_host =
  respond :: "transcript \<Rightarrow> db_call \<Rightarrow> error + pyval"
  BIT :: int

definition call_host :: "db_host \<Rightarrow> db_call \<Rightarrow> (transcript, pyval) io" where
  "call_host h c t = (respond h t c, t @ [(c, respond h t c)])"

subsection \<open>The result bundle\<close>

text \<open>Class \<open>_Result\<close>; every field defaults to None.\<close>

record Result =
  output_params :: "(string \<rightharpoonup> pyval) option"
  result_set :: pyval
  return_value :: pyval
  update_count :: pyval

definition Result_init :: Result where
  "Result_init =
     \<lparr>output_params = None, result_set = PNone, return_value = PNone, update_count = PNone\<rparr>"

subsection \<open>The orchestrator\<close>

text \<open>
  A Python dictionary that is iterated is an association list with distinct keys,
  in iteration order: \<open>for k in d\<close> runs over \<open>map fst d\<close> and \<open>d[k]\<close> is
  \<open>map_of d k\<close>, raising KeyError where there is none. Parameters are
  addressed by name. An input parameter is a pair of a type tag and a value (the
  code reads its items 0 and 1), an output parameter a type tag.
\<close>

type_synonym in_dict = "(string \<times> int \<times> pyval) list"
type_synonym out_dict = "(string \<times> int) list"

text \<open>The arguments of \<open>_execute_sp\<close>, and its defaults.\<close>

record sp_args =
  stored_procedure :: string
  database :: string
  transaction :: "string option"
  skip_audit :: bool
  in_params :: "in_dict option"
  out_params :: "out_dict option"
  get_out_params :: bool
  get_result_set :: bool
  get_ret_val :: bool
  return_type_code :: "int option"
  get_update_count :: bool

definition sp_defaults :: "string \<Rightarrow> sp_args" where
  "sp_defaults sp =
     \<lparr>stored_procedure = sp, database = [], transaction = None, skip_audit = False,
      in_params = None, out_params = None, get_out_params = False,
      get_result_set = False, get_ret_val = False, return_type_code = None,
      get_update_count = False\<rparr>"

text \<open>
  Python truth of an optional dictionary or string: None and the empty one are
  false. The entries of an absent dictionary are none.
\<close>

fun truthy :: "'a list option \<Rightarrow> bool" where
  "truthy None = False"
| "truthy (Some xs) = (xs \<noteq> [])"

fun entries :: "'a list option \<Rightarrow> 'a list" where
  "entries None = []"
| "entries (Some xs) = xs"

text \<open>The loop \<open>for in_param in in_params: call.registerInParam(...)\<close>.\<close>

fun register_in_params :: "db_host \<Rightarrow> in_dict \<Rightarrow> string list \<Rightarrow> (transcript, unit) io" where
  "register_in_params h d [] = ret ()"
| "register_in_params h d (in_param # rest) =
     (case map_of d in_param of
        None \<Rightarrow> (\<lambda>t. (Inl (KeyError in_param), t))
      | Some (ty, v) \<Rightarrow>
          bnd (call_host h (RegisterInParam in_param ty v))
            (\<lambda>_. register_in_params h d rest))"

text \<open>The loop \<open>for out_param in out_params: call.registerOutParam(...)\<close>.\<close>

fun register_out_params :: "db_host \<Rightarrow> out_dict \<Rightarrow> string list \<Rightarrow> (transcript, unit) io" where
  "register_out_params h d [] = ret ()"
| "register_out_params h d (out_param # rest) =
     (case map_of d out_param of
        None \<Rightarrow> (\<lambda>t. (Inl (KeyError out_param), t))
      | Some ty \<Rightarrow>
          bnd (call_host h (RegisterOutParam out_param ty))
            (\<lambda>_. register_out_params h d rest))"

text \<open>
  The loop \<open>for out_param in out_params: _out_params[out_param] =
  call.getOutParamValue(out_param)\<close>, with the dictionary built so far.
\<close>

fun read_out_params ::
  "db_host \<Rightarrow> string list \<Rightarrow> (string \<rightharpoonup> pyval) \<Rightarrow> (transcript, string \<rightharpoonup> pyval) io" where
  "read_out_params h [] acc = ret acc"
| "read_out_params h (out_param # rest) acc =
     bnd (call_host h (GetOutParamValue out_param))
       (\<lambda>v. read_out_params h rest (acc(out_param \<mapsto> v)))"

text \<open>Function \<open>_execute_sp\<close>.\<close>

definition execute_sp :: "db_host \<Rightarrow> sp_args \<Rightarrow> (transcript, Result) io" where
  "execute_sp h a =
     bnd (call_host h (CreateSProcCall (stored_procedure a) (database a)
                         (transaction a) (skip_audit a)))
     (\<lambda>_. bnd (if truthy (in_params a)
                then register_in_params h (entries (in_params a))
                       (map fst (entries (in_params a)))
                else ret ())
     (\<lambda>_. bnd (if truthy (out_params a)
                then register_out_params h (entries (out_params a))
                       (map fst (entries (out_params a)))
                else ret ())
     (\<lambda>_. bnd (if get_ret_val a
                then bnd (call_host h (RegisterReturnParam (return_type_code a)))
                       (\<lambda>_. ret ())
                else ret ())
     (\<lambda>_. bnd (call_host h ExecSProcCall)
     (\<lambda>_. bnd (if truthy (out_params a)
                then read_out_params h (map fst (entries (out_params a))) Map.empty
                else ret Map.empty)
     (\<lambda>outs. bnd (if get_out_params a
                   then ret (Result_init\<lparr>output_params := Some outs\<rparr>)
                   else ret Result_init)
     (\<lambda>r1. bnd (if get_result_set a
                 then bnd (call_host h GetResultSet) (\<lambda>v. ret (r1\<lparr>result_set := v\<rparr>))
                 else ret r1)
     (\<lambda>r2. bnd (if get_ret_val a
                 then bnd (call_host h GetReturnValue) (\<lambda>v. ret (r2\<lparr>return_value := v\<rparr>))
                 else ret r2)
     (\<lambda>r3. if get_update_count a
            then bnd (call_host h GetUpdateCount) (\<lambda>v. ret (r3\<lparr>update_count := v\<rparr>))
            else ret r3)))))))))"

subsection \<open>The public functions\<close>





text \<open>Function \<open>get_return_value\<close>.\<close>

definition get_return_value ::
  "db_host \<Rightarrow> string \<Rightarrow> int option \<Rightarrow> in_dict option \<Rightarrow> string option \<Rightarrow>
   (transcript, pyval) io" where
  "get_return_value h sp rtc params tx =
     bnd (execute_sp h ((sp_defaults sp)
            \<lparr>transaction := tx, in_params := params, return_type_code := rtc,
             get_ret_val := True\<rparr>))
       (\<lambda>result. ret (return_value result))"

section \<open>The user module (user.py)\<close>

subsection \<open>The host's user sources\<close>

text \<open>
  A contact-info entry and a user object of the host, as far as the module reads
  them: the properties that \<open>user.get\<close> and \<open>user.getOrDefault\<close> return (None
  where a property is not set), the contact entries and the roles. Field
  \<open>contact_value\<close> is the attribute \<open>value\<close> of a contact entry.
\<close>

record contact_info =
  contactType :: string
  contact_value :: string

record host_user =
  Username :: pyval
  FirstName :: pyval
  LastName :: pyval
  Language :: pyval
  getContactInfo :: "contact_info list"
  getRoles :: "string list"

text \<open>
  The calls the module makes on \<open>system.security\<close> and \<open>system.user\<close>, and the
  host that answers them. A lookup that finds nobody answers None.
\<close>

datatype user_call =
    GetUsername
  | GetUser string string
  | GetUsers string

record user_host =
  getUsername :: "error + string"
  getUser :: "string \<Rightarrow> string \<Rightarrow> error + host_user option"
  getUsers :: "string \<Rightarrow> error + host_user list"

definition call_getUsername :: "user_host \<Rightarrow> (user_call list, string) io" where
  "call_getUsername h log = (getUsername h, log @ [GetUsername])"

definition call_getUser ::
  "user_host \<Rightarrow> string \<Rightarrow> string \<Rightarrow> (user_call list, host_user option) io" where
  "call_getUser h source name log = (getUser h source name, log @ [GetUser source name])"

definition call_getUsers :: "user_host \<Rightarrow> string \<Rightarrow> (user_call list, host_user list) io" where
  "call_getUsers h source log = (getUsers h source, log @ [GetUsers source])"

subsection \<open>The identity view\<close>

text \<open>Class \<open>_User\<close> and its initializer; \<open>user_locale\<close> is the attribute \<open>_locale\<close>.\<close>

record User =
  username :: pyval
  first_name :: pyval
  last_name :: pyval
  user_locale :: pyval

definition User_init :: "host_user \<Rightarrow> User" where
  "User_init user =
     \<lparr>username = Username user, first_name = FirstName user,
      last_name = LastName user, user_locale = Language user\<rparr>"

text \<open>Python's \<open>sep.join(items)\<close>: an item that is not a string raises TypeError.\<close>

fun join :: "string \<Rightarrow> pyval list \<Rightarrow> error + string" where
  "join sep [] = Inr []"
| "join sep [PStr s] = Inr s"
| "join sep (PStr s # x # xs) =
     (case join sep (x # xs) of Inl e \<Rightarrow> Inl e | Inr r \<Rightarrow> Inr (s @ sep @ r))"
| "join sep (_ # _) = Inl TypeError"

definition get_first_name :: "User \<Rightarrow> pyval" where
  "get_first_name u = first_name u"

definition get_full_name :: "User \<Rightarrow> error + string" where
  "get_full_name u = join '' '' [first_name u, last_name u]"

definition get_locale :: "User \<Rightarrow> pyval" where
  "get_locale u = user_locale u"

subsection \<open>Function \<open>get_emails\<close>\<close>

text \<open>
  The inner loop \<open>for email in _emails\<close> over the e-mail values of one user, and
  the outer loop \<open>for user in users\<close>; \<open>emails\<close> is the Python set.
\<close>

fun add_emails :: "string \<Rightarrow> host_user \<Rightarrow> string list \<Rightarrow> string set \<Rightarrow> string set" where
  "add_emails filter_role user [] emails = emails"
| "add_emails filter_role user (email # rest) emails =
     add_emails filter_role user rest
       (if filter_role \<noteq> []
        then (if filter_role \<in> set (getRoles user) then insert email emails else emails)
        else insert email emails)"

fun collect_emails :: "string \<Rightarrow> host_user list \<Rightarrow> string set \<Rightarrow> string set" where
  "collect_emails filter_role [] emails = emails"
| "collect_emails filter_role (user # rest) emails =
     collect_emails filter_role rest
       (add_emails filter_role user
          (map contact_value
             (filter (\<lambda>ci. contactType ci = ''email'') (getContactInfo user)))
          emails)"

text \<open>
  \<open>sorted(list(emails))\<close>: the elements of the set in ascending order, strings
  compared character by character.
\<close>

definition get_emails ::
  "user_host \<Rightarrow> string \<Rightarrow> string \<Rightarrow> (user_call list, string list) io" where
  "get_emails h user_source filter_role =
     bnd (call_getUsers h user_source)
       (\<lambda>users. ret (sorted_list_of_set (collect_emails filter_role users {})))"

subsection \<open>Function \<open>get_user\<close>\<close>

text \<open>
  A user object of the host is true in a condition, None is false; a source name
  is true when it is not empty.
\<close>

definition get_user ::
  "user_host \<Rightarrow> string \<Rightarrow> string option \<Rightarrow> (user_call list, User option) io" where
  "get_user h user_source failover =
     bnd (call_getUsername h)
     (\<lambda>name. bnd (if user_source \<noteq> [] then call_getUser h user_source name else ret None)
     (\<lambda>user. bnd (if user = None \<and> truthy failover
                  then call_getUser h (the failover) name
                  else ret user)
     (\<lambda>user. ret (case user of None \<Rightarrow> None | Some u \<Rightarrow> Some (User_init u)))))"

section \<open>Specification vocabulary\<close>

text \<open>
  The calls the specification describes for one invocation of the orchestrator:
  one input registration per entry of the input dictionary, in its order, with
  the entry's type tag and value; one output registration per declared output
  parameter; the return parameter when the return value is requested; the
  execution; then the read-backs.
\<close>

definition in_registrations :: "in_dict \<Rightarrow> db_call list" where
  "in_registrations d = map (\<lambda>(name, ty, v). RegisterInParam name ty v) d"

definition out_registrations :: "out_dict \<Rightarrow> db_call list" where
  "out_registrations d = map (\<lambda>(name, ty). RegisterOutParam name ty) d"

definition registrations :: "sp_args \<Rightarrow> db_call list" where
  "registrations a =
     CreateSProcCall (stored_procedure a) (database a) (transaction a) (skip_audit a)
     # in_registrations (entries (in_params a))
     @ out_registrations (entries (out_params a))
     @ (if get_ret_val a then [RegisterReturnParam (return_type_code a)] else [])"

definition readbacks :: "sp_args \<Rightarrow> db_call list" where
  "readbacks a =
     map GetOutParamValue (map fst (entries (out_params a)))
     @ (if get_result_set a then [GetResultSet] else [])
     @ (if get_ret_val a then [GetReturnValue] else [])
     @ (if get_update_count a then [GetUpdateCount] else [])"

text \<open>
  Issuing a list of calls one after the other, stopping at the first that fails,
  and forgetting the value of a computation.
\<close>

fun play :: "db_host \<Rightarrow> db_call list \<Rightarrow> (transcript, unit) io" where
  "play h [] = ret ()"
| "play h (c # cs) = bnd (call_host h c) (\<lambda>_. play h cs)"

definition void :: "('s, 'a) io \<Rightarrow> ('s, unit) io" where
  "void m = bnd m (\<lambda>_. ret ())"

text \<open>
  A transcript extension is genuine when every answer in it is the answer of the
  host at that point; it succeeded when no answer in it is a failure.
\<close>

fun genuine :: "db_host \<Rightarrow> transcript \<Rightarrow> transcript \<Rightarrow> bool" where
  "genuine h t [] = True"
| "genuine h t (x # ext) = (snd x = respond h t (fst x) \<and> genuine h (t @ [x]) ext)"

definition succeeded :: "transcript \<Rightarrow> bool" where
  "succeeded ext = list_all (\<lambda>x. case snd x of Inl _ \<Rightarrow> False | Inr _ \<Rightarrow> True) ext"

text \<open>The answers behind the facets of a bundle that are read after the output parameters.\<close>

definition facet_answers :: "sp_args \<Rightarrow> Result \<Rightarrow> transcript" where
  "facet_answers a r =
     (if get_result_set a then [(GetResultSet, Inr (result_set r))] else [])
     @ (if get_ret_val a then [(GetReturnValue, Inr (return_value r))] else [])
     @ (if get_update_count a then [(GetUpdateCount, Inr (update_count r))] else [])"

section \<open>Concrete hosts and inputs\<close>

text \<open>
  A host on which every call succeeds: output parameters read as True, the
  result set is an empty dataset, the return value is 0 and the update count is
  not applicable.
\<close>

definition demo_host :: db_host where
  "demo_host =
     \<lparr>respond = (\<lambda>t c. case c of
                    GetOutParamValue k \<Rightarrow> Inr (PBool True)
                  | GetResultSet \<Rightarrow> Inr (PDataset [])
                  | GetReturnValue \<Rightarrow> Inr (PInt 0)
                  | GetUpdateCount \<Rightarrow> Inr (PInt (- 1))
                  | _ \<Rightarrow> Inr PNone),
      BIT = - 7\<rparr>"

definition demo_args :: sp_args where
  "demo_args = (sp_defaults ''sp_demo'')
     \<lparr>in_params := Some [(''a'', 4, PInt 1), (''b'', 12, PStr ''x'')],
      out_params := Some [(''o'', 4)],
      get_out_params := True, get_ret_val := True, return_type_code := Some 4\<rparr>"

text \<open>
  A host whose execution fails, a host that answers None to everything (no result
  set, no rows), a host that cannot deliver any output parameter, a host that
  rejects the input parameter \<open>b\<close>, and a small input dictionary.
\<close>

definition failing_host :: db_host where
  "failing_host =
     \<lparr>respond = (\<lambda>t c. case c of
                    ExecSProcCall \<Rightarrow> Inl (HostError ''connection lost'')
                  | _ \<Rightarrow> Inr PNone),
      BIT = - 7\<rparr>"



definition rejecting_host :: db_host where
  "rejecting_host =
     \<lparr>respond = (\<lambda>t c. case c of
                    RegisterInParam k ty v \<Rightarrow>
                      if k = ''b'' then Inl (HostError ''type mismatch'') else Inr PNone
                  | _ \<Rightarrow> Inr PNone),
      BIT = - 7\<rparr>"


text \<open>
  Two users that share the address of their team, and a host with them: the
  logged-in user is alice, who is found in the sources \<open>main\<close>, \<open>backup\<close> and
  in the default source (the empty name), and in no other.
\<close>

definition alice :: host_user where
  "alice =
     \<lparr>Username = PStr ''alice'', FirstName = PStr ''Alice'', LastName = PStr ''Liddell'',
      Language = PStr ''en'',
      getContactInfo =
        [\<lparr>contactType = ''email'', contact_value = ''team@example.com''\<rparr>,
         \<lparr>contactType = ''phone'', contact_value = ''555-0100''\<rparr>,
         \<lparr>contactType = ''email'', contact_value = ''alice@example.com''\<rparr>],
      getRoles = [''Operator'']\<rparr>"

definition bob :: host_user where
  "bob =
     \<lparr>Username = PStr ''bob'', FirstName = PStr ''Bob'', LastName = PNone,
      Language = PStr ''en'',
      getContactInfo = [\<lparr>contactType = ''email'', contact_value = ''team@example.com''\<rparr>],
      getRoles = [''Administrator'']\<rparr>"

definition plant_host :: user_host where
  "plant_host =
     \<lparr>getUsername = Inr ''alice'',
      getUser = (\<lambda>source name.
        if name = ''alice'' \<and> (source = ''main'' \<or> source = ''backup'' \<or> source = [])
        then Inr (Some alice) else Inr None),
      getUsers = (\<lambda>source. Inr [alice, bob])\<rparr>"

section \<open>Properties of the database module\<close>

lemma ret_bnd [simp]: "bnd (ret x) f = f x"
  by (rule ext) (simp add: bnd_def ret_def)

lemma bnd_ret [simp]: "bnd m ret = m"
  by (rule ext) (simp add: bnd_def ret_def split: prod.splits sum.splits)

lemma bnd_assoc: "bnd (bnd m f) g = bnd m (\<lambda>x. bnd (f x) g)"
  by (rule ext) (simp add: bnd_def split: prod.splits sum.splits)

lemma bnd_unit [simp]: "bnd m (\<lambda>_::unit. ret ()) = m"
  by (rule ext) (simp add: bnd_def ret_def split: prod.splits sum.splits)

lemma void_ret [simp]: "void (ret x) = ret ()"
  by (simp add: void_def)

lemma void_bnd: "void (bnd m f) = bnd m (\<lambda>x. void (f x))"
  by (simp add: void_def bnd_assoc)

lemma play_append: "play h (xs @ ys) = bnd (play h xs) (\<lambda>_. play h ys)"
  by (induction xs) (simp_all add: bnd_assoc)

lemma register_in_params_play:
  "set ks \<subseteq> fst ` set d \<Longrightarrow>
   register_in_params h d ks =
     play h (map (\<lambda>k. case the (map_of d k) of (ty, v) \<Rightarrow> RegisterInParam k ty v) ks)"
proof (induction ks)
  case Nil
  then show ?case by simp
next
  case (Cons k ks)
  then obtain ty v where "map_of d k = Some (ty, v)"
    by (metis (no_types, opaque_lifting) list.set_intros(1) map_of_eq_None_iff not_None_eq subsetD surj_pair)
  with Cons show ?case by simp
qed

lemma map_of_keys:
  "distinct (map fst d) \<Longrightarrow> map (\<lambda>k. f k (the (map_of d k))) (map fst d) = map (\<lambda>(k, x). f k x) d"
  by (induction d) (auto simp: rev_image_eqI)

lemma register_in_params_dict:
  assumes "distinct (map fst d)"
  shows "register_in_params h d (map fst d) = play h (in_registrations d)"
proof -
  have "map (\<lambda>k. case the (map_of d k) of (ty, v) \<Rightarrow> RegisterInParam k ty v) (map fst d)
        = in_registrations d"
    unfolding in_registrations_def
    using map_of_keys [OF assms, of "\<lambda>k x. case x of (ty, v) \<Rightarrow> RegisterInParam k ty v"]
    by simp
  then show ?thesis
    using register_in_params_play [of "map fst d" d h] by simp
qed

lemma register_out_params_play:
  "set ks \<subseteq> fst ` set d \<Longrightarrow>
   register_out_params h d ks =
     play h (map (\<lambda>k. RegisterOutParam k (the (map_of d k))) ks)"
proof (induction ks)
  case Nil
  then show ?case by simp
next
  case (Cons k ks)
  then obtain ty where "map_of d k = Some ty"
    by (metis list.set_intros(1) map_of_eq_None_iff not_None_eq subsetD)
  with Cons show ?case by simp
qed

lemma register_out_params_dict:
  assumes "distinct (map fst d)"
  shows "register_out_params h d (map fst d) = play h (out_registrations d)"
proof -
  have "map (\<lambda>k. RegisterOutParam k (the (map_of d k))) (map fst d) = out_registrations d"
    unfolding out_registrations_def
    using map_of_keys [OF assms, of "\<lambda>k x. RegisterOutParam k x"] by simp
  then show ?thesis
    using register_out_params_play [of "map fst d" d h] by simp
qed

lemma read_out_params_play:
  "bnd (read_out_params h ks acc) (\<lambda>_. k) = bnd (play h (map GetOutParamValue ks)) (\<lambda>_. k)"
  by (induction ks arbitrary: acc) (simp_all add: bnd_assoc)

lemma in_loop: "distinct (map fst (entries d)) \<Longrightarrow>
  (if truthy d then register_in_params h (entries d) (map fst (entries d)) else ret ())
   = play h (in_registrations (entries d))"
  by (cases d) (auto simp: register_in_params_dict in_registrations_def)

lemma out_loop: "distinct (map fst (entries d)) \<Longrightarrow>
  (if truthy d then register_out_params h (entries d) (map fst (entries d)) else ret ())
   = play h (out_registrations (entries d))"
  by (cases d) (auto simp: register_out_params_dict out_registrations_def)

lemma read_loop:
  "(if truthy d then read_out_params h (map fst (entries d)) acc else ret acc)
   = read_out_params h (map fst (entries d)) acc"
  by (cases d) auto

lemma execute_sp_void:
  assumes "distinct (map fst (entries (in_params a)))"
      and "distinct (map fst (entries (out_params a)))"
  shows "void (execute_sp h a) = play h (registrations a @ ExecSProcCall # readbacks a)"
  unfolding execute_sp_def registrations_def readbacks_def
  by (cases "get_out_params a"; cases "get_result_set a"; cases "get_ret_val a";
      cases "get_update_count a";
      simp add: in_loop [OF assms(1)] out_loop [OF assms(2)] read_loop void_bnd
      read_out_params_play play_append bnd_assoc void_def [of "call_host h c" for c])

lemma succeeded_simps [simp]:
  "succeeded []"
  "succeeded (x # xs) = ((\<exists>v. snd x = Inr v) \<and> succeeded xs)"
  "succeeded (xs @ ys) = (succeeded xs \<and> succeeded ys)"
  by (auto simp: succeeded_def split: sum.splits)

lemma play_Inr:
  "play h cs t = (Inr u, t') \<Longrightarrow>
   \<exists>ext. t' = t @ ext \<and> map fst ext = cs \<and> succeeded ext \<and> genuine h t ext"
proof (induction cs arbitrary: t)
  case Nil
  then show ?case by (simp add: ret_def)
next
  case (Cons c cs)
  from Cons.prems obtain v where v: "respond h t c = Inr v"
    and rest: "play h cs (t @ [(c, Inr v)]) = (Inr u, t')"
    by (auto simp: bnd_def call_host_def split: sum.splits)
  from Cons.IH [OF rest] obtain ext where
    "t' = (t @ [(c, Inr v)]) @ ext" "map fst ext = cs" "succeeded ext"
    "genuine h (t @ [(c, Inr v)]) ext"
    by blast
  with v show ?case
    by (intro exI [of _ "(c, Inr v) # ext"]) simp
qed

lemma play_Inl:
  "play h cs t = (Inl e, t') \<Longrightarrow>
   \<exists>pre c. t' = t @ pre @ [(c, Inl e)] \<and> respond h (t @ pre) c = Inl e \<and>
     succeeded pre \<and> prefix (map fst pre @ [c]) cs \<and> genuine h t (pre @ [(c, Inl e)])"
proof (induction cs arbitrary: t)
  case Nil
  then show ?case by (simp add: ret_def)
next
  case (Cons c cs)
  show ?case
  proof (cases "respond h t c")
    case (Inl e')
    with Cons.prems have "e' = e" "t' = t @ [(c, Inl e)]"
      by (auto simp: bnd_def call_host_def)
    with Inl show ?thesis
      by (intro exI [of _ "[]"] exI [of _ c]) simp
  next
    case (Inr v)
    with Cons.prems have rest: "play h cs (t @ [(c, Inr v)]) = (Inl e, t')"
      by (auto simp: bnd_def call_host_def)
    from Cons.IH [OF rest] obtain pre c' where
      "t' = (t @ [(c, Inr v)]) @ pre @ [(c', Inl e)]"
      "respond h ((t @ [(c, Inr v)]) @ pre) c' = Inl e"
      "succeeded pre" "prefix (map fst pre @ [c']) cs"
      "genuine h (t @ [(c, Inr v)]) (pre @ [(c', Inl e)])"
      by blast
    with Inr show ?thesis
      by (intro exI [of _ "(c, Inr v) # pre"] exI [of _ c']) simp
  qed
qed

lemma void_fst: "fst (void m t) = map_sum id (\<lambda>_. ()) (fst (m t))"
  by (simp add: void_def bnd_def ret_def split: prod.splits sum.splits)

lemma void_snd: "snd (void m t) = snd (m t)"
  by (simp add: void_def bnd_def ret_def split: prod.splits sum.splits)

lemma bnd_Inr:
  "bnd m f t = (Inr r, t') \<longleftrightarrow> (\<exists>x t1. m t = (Inr x, t1) \<and> f x t1 = (Inr r, t'))"
  by (auto simp: bnd_def split: prod.splits sum.splits)

lemma call_host_Inr:
  "call_host h c t = (Inr v, t') \<longleftrightarrow> respond h t c = Inr v \<and> t' = t @ [(c, Inr v)]"
  by (auto simp: call_host_def)

lemma read_out_params_Inr:
  "read_out_params h ks acc t = (Inr outs, t') \<Longrightarrow>
   \<exists>ext. t' = t @ ext \<and> map fst ext = map GetOutParamValue ks \<and>
     (\<forall>k. k \<notin> set ks \<longrightarrow> outs k = acc k) \<and>
     (\<forall>k\<in>set ks. \<exists>v. outs k = Some v \<and> (GetOutParamValue k, Inr v) \<in> set ext)"
proof (induction ks arbitrary: acc t)
  case Nil
  then show ?case by (simp add: ret_def)
next
  case (Cons k ks)
  from Cons.prems obtain v where v: "respond h t (GetOutParamValue k) = Inr v"
    and rest: "read_out_params h ks (acc(k \<mapsto> v)) (t @ [(GetOutParamValue k, Inr v)]) = (Inr outs, t')"
    by (auto simp: bnd_Inr call_host_Inr)
  from Cons.IH [OF rest] obtain ext where ext:
    "t' = (t @ [(GetOutParamValue k, Inr v)]) @ ext"
    "map fst ext = map GetOutParamValue ks"
    "\<forall>k'. k' \<notin> set ks \<longrightarrow> outs k' = (acc(k \<mapsto> v)) k'"
    "\<forall>k'\<in>set ks. \<exists>v'. outs k' = Some v' \<and> (GetOutParamValue k', Inr v') \<in> set ext"
    by blast
  show ?case
  proof (intro exI [of _ "(GetOutParamValue k, Inr v) # ext"] conjI)
    show "\<forall>k'\<in>set (k # ks). \<exists>v'. outs k' = Some v' \<and>
            (GetOutParamValue k', Inr v') \<in> set ((GetOutParamValue k, Inr v) # ext)"
      using ext(3,4) by (cases "k \<in> set ks") auto
  qed (use ext in auto)
qed

lemma execute_sp_phases:
  assumes "distinct (map fst (entries (in_params a)))"
      and "distinct (map fst (entries (out_params a)))"
  shows "execute_sp h a =
    bnd (play h (registrations a @ [ExecSProcCall]))
     (\<lambda>_. bnd (read_out_params h (map fst (entries (out_params a))) Map.empty)
     (\<lambda>outs. bnd (if get_out_params a
                   then ret (Result_init\<lparr>output_params := Some outs\<rparr>)
                   else ret Result_init)
     (\<lambda>r1. bnd (if get_result_set a
                 then bnd (call_host h GetResultSet) (\<lambda>v. ret (r1\<lparr>result_set := v\<rparr>))
                 else ret r1)
     (\<lambda>r2. bnd (if get_ret_val a
                 then bnd (call_host h GetReturnValue) (\<lambda>v. ret (r2\<lparr>return_value := v\<rparr>))
                 else ret r2)
     (\<lambda>r3. if get_update_count a
            then bnd (call_host h GetUpdateCount) (\<lambda>v. ret (r3\<lparr>update_count := v\<rparr>))
            else ret r3)))))"
  unfolding execute_sp_def registrations_def
  by (cases "get_ret_val a";
      simp add: in_loop [OF assms(1)] out_loop [OF assms(2)] read_loop play_append bnd_assoc)

lemma facets_Inr:
  assumes "bnd (if get_out_params a
                   then ret (Result_init\<lparr>output_params := Some outs\<rparr>)
                   else ret Result_init)
     (\<lambda>r1. bnd (if get_result_set a
                 then bnd (call_host h GetResultSet) (\<lambda>v. ret (r1\<lparr>result_set := v\<rparr>))
                 else ret r1)
     (\<lambda>r2. bnd (if get_ret_val a
                 then bnd (call_host h GetReturnValue) (\<lambda>v. ret (r2\<lparr>return_value := v\<rparr>))
                 else ret r2)
     (\<lambda>r3. if get_update_count a
            then bnd (call_host h GetUpdateCount) (\<lambda>v. ret (r3\<lparr>update_count := v\<rparr>))
            else ret r3))) t = (Inr r, t')"
  shows "t' = t @ facet_answers a r \<and> genuine h t (facet_answers a r) \<and>
         output_params r = (if get_out_params a then Some outs else None) \<and>
         (\<not> get_result_set a \<longrightarrow> result_set r = PNone) \<and>
         (\<not> get_ret_val a \<longrightarrow> return_value r = PNone) \<and>
         (\<not> get_update_count a \<longrightarrow> update_count r = PNone)"
  using assms
  by (cases "get_out_params a"; cases "get_result_set a"; cases "get_ret_val a";
      cases "get_update_count a";
      auto simp: bnd_Inr call_host_Inr ret_def facet_answers_def Result_init_def)

lemma execute_sp_Inr:
  assumes "distinct (map fst (entries (in_params a)))"
      and "distinct (map fst (entries (out_params a)))"
      and "execute_sp h a t = (Inr r, t')"
  shows "\<exists>pre outs. t' = t @ pre @ facet_answers a r \<and>
           map fst pre = registrations a @ ExecSProcCall
                           # map GetOutParamValue (map fst (entries (out_params a))) \<and>
           output_params r = (if get_out_params a then Some outs else None) \<and>
           dom outs = fst ` set (entries (out_params a)) \<and>
           (\<forall>k\<in>fst ` set (entries (out_params a)).
              \<exists>v. outs k = Some v \<and> (GetOutParamValue k, Inr v) \<in> set pre) \<and>
           (\<not> get_result_set a \<longrightarrow> result_set r = PNone) \<and>
           (\<not> get_ret_val a \<longrightarrow> return_value r = PNone) \<and>
           (\<not> get_update_count a \<longrightarrow> update_count r = PNone)"
proof -
  let ?ks = "map fst (entries (out_params a))"
  from assms(3) obtain t1 outs t2 where
    p1: "play h (registrations a @ [ExecSProcCall]) t = (Inr (), t1)" and
    p2: "read_out_params h ?ks Map.empty t1 = (Inr outs, t2)" and
    p3: "bnd (if get_out_params a
                   then ret (Result_init\<lparr>output_params := Some outs\<rparr>)
                   else ret Result_init)
     (\<lambda>r1. bnd (if get_result_set a
                 then bnd (call_host h GetResultSet) (\<lambda>v. ret (r1\<lparr>result_set := v\<rparr>))
                 else ret r1)
     (\<lambda>r2. bnd (if get_ret_val a
                 then bnd (call_host h GetReturnValue) (\<lambda>v. ret (r2\<lparr>return_value := v\<rparr>))
                 else ret r2)
     (\<lambda>r3. if get_update_count a
            then bnd (call_host h GetUpdateCount) (\<lambda>v. ret (r3\<lparr>update_count := v\<rparr>))
            else ret r3))) t2 = (Inr r, t')"
    unfolding execute_sp_phases [OF assms(1,2)] bnd_Inr by auto
  from play_Inr [OF p1] obtain e1 where e1:
    "t1 = t @ e1" "map fst e1 = registrations a @ [ExecSProcCall]" by blast
  from read_out_params_Inr [OF p2] obtain e2 where e2:
    "t2 = t1 @ e2" "map fst e2 = map GetOutParamValue ?ks"
    "\<forall>k. k \<notin> set ?ks \<longrightarrow> outs k = None"
    "\<forall>k\<in>set ?ks. \<exists>v. outs k = Some v \<and> (GetOutParamValue k, Inr v) \<in> set e2"
    by auto
  have dom: "dom outs = fst ` set (entries (out_params a))"
    using e2(3,4) by (auto simp: dom_def)
  note f = facets_Inr [OF p3]
  show ?thesis
  proof (intro exI [of _ "e1 @ e2"] exI [of _ outs] conjI)
    show "t' = t @ (e1 @ e2) @ facet_answers a r"
      using f e1(1) e2(1) by simp
    show "map fst (e1 @ e2) = registrations a @ ExecSProcCall # map GetOutParamValue ?ks"
      using e1(2) e2(2) by simp
    show "\<forall>k\<in>fst ` set (entries (out_params a)).
            \<exists>v. outs k = Some v \<and> (GetOutParamValue k, Inr v) \<in> set (e1 @ e2)"
      using e2(4) by auto
  qed (use f dom in simp_all)
qed

lemma play_transcript:
  "\<exists>ext. snd (play h cs t) = t @ ext \<and> genuine h t ext \<and> prefix (map fst ext) cs"
proof (cases "play h cs t")
  case (Pair res t')
  show ?thesis
  proof (cases res)
    case (Inl e)
    from play_Inl [OF Pair [unfolded Inl]] show ?thesis
      using Pair by auto
  next
    case (Inr u)
    from play_Inr [OF Pair [unfolded Inr]] show ?thesis
      using Pair by auto
  qed
qed

lemma execute_sp_Inl:
  assumes "distinct (map fst (entries (in_params a)))"
      and "distinct (map fst (entries (out_params a)))"
      and "execute_sp h a t = (Inl e, t')"
  shows "\<exists>pre c. t' = t @ pre @ [(c, Inl e)] \<and> respond h (t @ pre) c = Inl e \<and>
           succeeded pre \<and>
           prefix (map fst pre @ [c]) (registrations a @ ExecSProcCall # readbacks a)"
proof -
  have "play h (registrations a @ ExecSProcCall # readbacks a) t = (Inl e, t')"
    using assms(3) void_fst [of "execute_sp h a" t] void_snd [of "execute_sp h a" t]
    unfolding execute_sp_void [OF assms(1,2)]
    by (cases "play h (registrations a @ ExecSProcCall # readbacks a) t") (auto simp: map_sum_def split: sum.splits)
  from play_Inl [OF this] show ?thesis by blast
qed

lemma execute_sp_transcript:
  assumes "distinct (map fst (entries (in_params a)))"
      and "distinct (map fst (entries (out_params a)))"
  shows "\<exists>ext. snd (execute_sp h a t) = t @ ext \<and> genuine h t ext \<and>
           prefix (map fst ext) (registrations a @ ExecSProcCall # readbacks a)"
  using play_transcript [of h "registrations a @ ExecSProcCall # readbacks a" t]
    void_snd [of "execute_sp h a" t]
  unfolding execute_sp_void [OF assms] by simp

lemma execute_sp_Inr_calls:
  assumes "distinct (map fst (entries (in_params a)))"
      and "distinct (map fst (entries (out_params a)))"
      and "execute_sp h a t = (Inr r, t')"
  shows "\<exists>ext. t' = t @ ext \<and> succeeded ext \<and>
           map fst ext = registrations a @ ExecSProcCall # readbacks a"
proof -
  have "play h (registrations a @ ExecSProcCall # readbacks a) t = (Inr (), t')"
    using assms(3) void_fst [of "execute_sp h a" t] void_snd [of "execute_sp h a" t]
    unfolding execute_sp_void [OF assms(1,2)]
    by (cases "play h (registrations a @ ExecSProcCall # readbacks a) t") (auto simp: map_sum_def split: sum.splits)
  from play_Inr [OF this] show ?thesis by blast
qed

lemma distinct_described:
  assumes "distinct (map fst (entries (in_params a)))"
      and "distinct (map fst (entries (out_params a)))"
  shows "distinct (registrations a @ ExecSProcCall # readbacks a)"
proof -
  have 1: "distinct (in_registrations (entries (in_params a)))"
    using assms(1) unfolding in_registrations_def
    by (induction "entries (in_params a)") (auto simp: distinct_map inj_on_def)
  have 2: "distinct (out_registrations (entries (out_params a)))"
    using assms(2) unfolding out_registrations_def
    by (auto simp: distinct_map inj_on_def)
  have 3: "distinct (map GetOutParamValue (map fst (entries (out_params a))))"
    using assms(2) by (simp add: distinct_map inj_on_def)
  show ?thesis
    using 1 2 3 unfolding registrations_def readbacks_def
    by (auto simp: in_registrations_def out_registrations_def)
qed


lemma count_list_distinct: "distinct xs \<Longrightarrow> x \<in> set xs \<Longrightarrow> count_list xs x = 1"
  by (induction xs) auto

lemma exec_not_registration: "ExecSProcCall \<notin> set (registrations a)"
  by (auto simp: registrations_def in_registrations_def out_registrations_def)

lemma prefix_reaches:
  assumes "prefix xs (ys @ c # zs)" "c \<in> set xs" "c \<notin> set ys"
  shows "take (Suc (length ys)) xs = ys @ [c]"
  using assms by (auto simp: prefix_append prefix_Cons dest: set_mono_prefix)

lemma prefix_stops:
  assumes "prefix xs (ys @ c # zs)" "c \<notin> set xs"
  shows "prefix xs ys"
  using assms by (auto simp: prefix_append prefix_Cons)

lemma play_determined:
  "genuine h t ext \<Longrightarrow> succeeded ext \<Longrightarrow> play h (map fst ext) t = (Inr (), t @ ext)"
proof (induction ext arbitrary: t)
  case Nil
  then show ?case by (simp add: ret_def)
next
  case (Cons x ext)
  from Cons.prems obtain v where x: "snd x = Inr v" "respond h t (fst x) = Inr v"
    and rest: "genuine h (t @ [x]) ext" "succeeded ext"
    by auto
  have "x = (fst x, Inr v)" using x(1) by (metis prod.collapse)
  then have "call_host h (fst x) t = (Inr v, t @ [x])"
    using x(2) by (simp add: call_host_def)
  then show ?case
    using Cons.IH [OF rest] by (simp add: bnd_def)
qed

lemma play_next:
  assumes "play h cs t = (Inr (), t1)"
  shows "prefix (t1 @ [(c, respond h t1 c)]) (snd (play h (cs @ c # cs') t))"
proof (cases "respond h t1 c")
  case (Inl e)
  then show ?thesis
    using assms by (simp add: play_append bnd_def call_host_def)
next
  case (Inr v)
  from play_transcript [of h cs' "t1 @ [(c, Inr v)]"] obtain ext where
    "snd (play h cs' (t1 @ [(c, Inr v)])) = (t1 @ [(c, Inr v)]) @ ext" by blast
  then show ?thesis
    using assms Inr by (simp add: play_append bnd_def call_host_def)
qed

lemma succeeded_take: "succeeded xs \<Longrightarrow> succeeded (take n xs)"
  by (auto simp: succeeded_def list_all_iff dest: in_set_takeD)

text \<open>
  Claim C1. For dictionaries with distinct keys, every answer recorded for an
  invocation of \<open>_execute_sp\<close> is the host's, and the host calls are an initial
  part of: the creation of the call object, one input registration per entry of
  the input dictionary in iteration order with its type tag and value, one
  output registration per declared output parameter, the return-parameter
  registration exactly when the return value is requested, the execution, the
  read-backs. Whenever the host accepts these registrations, all of them are
  made and the execution follows them. When the execution is reached, the calls
  before it are exactly these registrations, all accepted, and the call is
  executed exactly once. It is not reached only when the host rejected a
  registration: that registration is the last call made and the invocation
  raises the host's failure.
\<close>

theorem execute_sp_registers_then_executes:
  assumes "distinct (map fst (entries (in_params a)))"
      and "distinct (map fst (entries (out_params a)))"
  shows "genuine h [] (snd (execute_sp h a [])) \<and>
         prefix (map fst (snd (execute_sp h a [])))
           (registrations a @ ExecSProcCall # readbacks a) \<and>
         (\<forall>pre. map fst pre = registrations a \<and> succeeded pre \<and> genuine h [] pre \<longrightarrow>
            prefix (pre @ [(ExecSProcCall, respond h pre ExecSProcCall)])
              (snd (execute_sp h a []))) \<and>
         (ExecSProcCall \<in> set (map fst (snd (execute_sp h a []))) \<longrightarrow>
            take (Suc (length (registrations a))) (map fst (snd (execute_sp h a [])))
              = registrations a @ [ExecSProcCall] \<and>
            succeeded (take (length (registrations a)) (snd (execute_sp h a []))) \<and>
            count_list (map fst (snd (execute_sp h a []))) ExecSProcCall = 1) \<and>
         (ExecSProcCall \<notin> set (map fst (snd (execute_sp h a []))) \<longrightarrow>
            (\<exists>pre c e. snd (execute_sp h a []) = pre @ [(c, Inl e)] \<and>
               respond h pre c = Inl e \<and> succeeded pre \<and> c \<in> set (registrations a) \<and>
               fst (execute_sp h a []) = Inl e) \<and>
            prefix (map fst (snd (execute_sp h a []))) (registrations a))"
proof -
  let ?T = "snd (execute_sp h a [])"
  let ?calls = "map fst ?T"
  let ?regs = "registrations a"
  let ?all = "?regs @ ExecSProcCall # readbacks a"
  from execute_sp_transcript [OF assms, of h "[]"] have
    gen: "genuine h [] ?T" and pre: "prefix ?calls ?all"
    by auto
  have dist: "distinct ?calls"
    using pre distinct_described [OF assms] by (metis distinct_append prefix_def)
  have T_play: "?T = snd (play h ?all [])"
    using void_snd [of "execute_sp h a" "[]"] unfolding execute_sp_void [OF assms] by simp
  have forward: "prefix (p @ [(ExecSProcCall, respond h p ExecSProcCall)]) ?T"
    if "map fst p = ?regs \<and> succeeded p \<and> genuine h [] p" for p
  proof -
    from that have "play h ?regs [] = (Inr (), p)"
      using play_determined [of h "[]" p] by auto
    from play_next [OF this, of ExecSProcCall "readbacks a"] show ?thesis
      unfolding T_play .
  qed
  have reach: "take (Suc (length ?regs)) ?calls = ?regs @ [ExecSProcCall]"
    if "ExecSProcCall \<in> set ?calls"
    using prefix_reaches [OF pre that exec_not_registration] .
  have once: "count_list ?calls ExecSProcCall = 1" if "ExecSProcCall \<in> set ?calls"
    using count_list_distinct [OF dist that] .
  have short: "prefix ?calls ?regs" if "ExecSProcCall \<notin> set ?calls"
    using prefix_stops [OF pre that] .
  have outcome: "(\<exists>r. execute_sp h a [] = (Inr r, ?T) \<and> succeeded ?T \<and> ?calls = ?all) \<or>
    (\<exists>e p c. execute_sp h a [] = (Inl e, ?T) \<and> ?T = p @ [(c, Inl e)] \<and>
       respond h p c = Inl e \<and> succeeded p)"
  proof (cases "execute_sp h a []")
    case (Pair res t)
    show ?thesis
    proof (cases res)
      case (Inl e)
      from execute_sp_Inl [OF assms Pair [unfolded Inl]] show ?thesis
        unfolding Pair Inl by auto
    next
      case (Inr r)
      from execute_sp_Inr_calls [OF assms Pair [unfolded Inr]] show ?thesis
        unfolding Pair Inr by auto
    qed
  qed
  have regs_ok: "succeeded (take (length ?regs) ?T)" if ex: "ExecSProcCall \<in> set ?calls"
  proof -
    from outcome show ?thesis
    proof
      assume "\<exists>r. execute_sp h a [] = (Inr r, ?T) \<and> succeeded ?T \<and> ?calls = ?all"
      then show ?thesis by (auto intro: succeeded_take)
    next
      assume "\<exists>e p c. execute_sp h a [] = (Inl e, ?T) \<and> ?T = p @ [(c, Inl e)] \<and>
        respond h p c = Inl e \<and> succeeded p"
      then obtain e p c where T: "?T = p @ [(c, Inl e)]" and p: "succeeded p" by blast
      have "length (take (Suc (length ?regs)) ?calls) = Suc (length ?regs)"
        unfolding reach [OF ex] by simp
      then have "Suc (length ?regs) \<le> length ?T" by simp
      then have "length ?regs \<le> length p" unfolding T by simp
      then have "take (length ?regs) ?T = take (length ?regs) p" unfolding T by simp
      then show ?thesis using p by (simp add: succeeded_take)
    qed
  qed
  have rejected: "\<exists>p c e. ?T = p @ [(c, Inl e)] \<and> respond h p c = Inl e \<and> succeeded p \<and>
      c \<in> set ?regs \<and> fst (execute_sp h a []) = Inl e"
    if nex: "ExecSProcCall \<notin> set ?calls"
  proof -
    from outcome show ?thesis
    proof
      assume "\<exists>r. execute_sp h a [] = (Inr r, ?T) \<and> succeeded ?T \<and> ?calls = ?all"
      then have "?calls = ?all" by blast
      then have "ExecSProcCall \<in> set ?calls" by (metis in_set_conv_decomp)
      with nex show ?thesis by contradiction
    next
      assume "\<exists>e p c. execute_sp h a [] = (Inl e, ?T) \<and> ?T = p @ [(c, Inl e)] \<and>
        respond h p c = Inl e \<and> succeeded p"
      then obtain e p c where run: "execute_sp h a [] = (Inl e, ?T)"
        and T: "?T = p @ [(c, Inl e)]" and r: "respond h p c = Inl e" and p: "succeeded p"
        by blast
      have "c \<in> set ?calls" unfolding T by simp
      moreover have "set ?calls \<subseteq> set ?regs"
        using short [OF nex] by (rule set_mono_prefix)
      ultimately have "c \<in> set ?regs" by (rule subsetD [rotated])
      with run T r p show ?thesis by auto
    qed
  qed
  show ?thesis
  proof (intro conjI impI allI)
    show "genuine h [] ?T" by (rule gen)
    show "prefix ?calls ?all" by (rule pre)
  qed (use forward reach once short regs_ok rejected in simp_all)
qed

lemmas db_eval = sp_defaults_def execute_sp_def bnd_def ret_def call_host_def Result_init_def
  registrations_def in_registrations_def out_registrations_def readbacks_def

lemma rejecting_run:
  "execute_sp rejecting_host demo_args [] =
     (Inl (HostError ''type mismatch''),
      [(CreateSProcCall ''sp_demo'' [] None False, Inr PNone),
       (RegisterInParam ''a'' 4 (PInt 1), Inr PNone),
       (RegisterInParam ''b'' 12 (PStr ''x''), Inl (HostError ''type mismatch''))])"
  by (simp add: demo_args_def rejecting_host_def db_eval)

lemma demo_registrations:
  "registrations demo_args =
     [CreateSProcCall ''sp_demo'' [] None False,
      RegisterInParam ''a'' 4 (PInt 1), RegisterInParam ''b'' 12 (PStr ''x''),
      RegisterOutParam ''o'' 4, RegisterReturnParam (Some 4)]"
  by (simp add: demo_args_def db_eval)

text \<open>The theorem at concrete inputs.\<close>

theorem execute_sp_registers_then_executes_witness:
  "distinct (map fst (entries (in_params demo_args))) \<and>
   distinct (map fst (entries (out_params demo_args))) \<and>
   registrations demo_args =
     [CreateSProcCall ''sp_demo'' [] None False,
      RegisterInParam ''a'' 4 (PInt 1), RegisterInParam ''b'' 12 (PStr ''x''),
      RegisterOutParam ''o'' 4, RegisterReturnParam (Some 4)] \<and>
   (map fst [(CreateSProcCall ''sp_demo'' [] None False, Inr PNone),
             (RegisterInParam ''a'' 4 (PInt 1), Inr PNone),
             (RegisterInParam ''b'' 12 (PStr ''x''), Inr PNone),
             (RegisterOutParam ''o'' 4, Inr PNone),
             (RegisterReturnParam (Some 4), Inr PNone)] = registrations demo_args \<and>
    succeeded [(CreateSProcCall ''sp_demo'' [] None False, Inr PNone),
             (RegisterInParam ''a'' 4 (PInt 1), Inr PNone),
             (RegisterInParam ''b'' 12 (PStr ''x''), Inr PNone),
             (RegisterOutParam ''o'' 4, Inr PNone),
             (RegisterReturnParam (Some 4), Inr PNone)] \<and>
    genuine demo_host []
            [(CreateSProcCall ''sp_demo'' [] None False, Inr PNone),
             (RegisterInParam ''a'' 4 (PInt 1), Inr PNone),
             (RegisterInParam ''b'' 12 (PStr ''x''), Inr PNone),
             (RegisterOutParam ''o'' 4, Inr PNone),
             (RegisterReturnParam (Some 4), Inr PNone)]) \<and>
   prefix ([(CreateSProcCall ''sp_demo'' [] None False, Inr PNone),
            (RegisterInParam ''a'' 4 (PInt 1), Inr PNone),
            (RegisterInParam ''b'' 12 (PStr ''x''), Inr PNone),
            (RegisterOutParam ''o'' 4, Inr PNone),
            (RegisterReturnParam (Some 4), Inr PNone)] @ [(ExecSProcCall, Inr PNone)])
     (snd (execute_sp demo_host demo_args [])) \<and>
   ExecSProcCall \<in> set (map fst (snd (execute_sp demo_host demo_args []))) \<and>
   take (Suc (length (registrations demo_args))) (map fst (snd (execute_sp demo_host demo_args [])))
     = registrations demo_args @ [ExecSProcCall] \<and>
   count_list (map fst (snd (execute_sp demo_host demo_args []))) ExecSProcCall = 1 \<and>
   ExecSProcCall \<notin> set (map fst (snd (execute_sp rejecting_host demo_args []))) \<and>
   fst (execute_sp rejecting_host demo_args []) = Inl (HostError ''type mismatch'') \<and>
   respond rejecting_host
     [(CreateSProcCall ''sp_demo'' [] None False, Inr PNone),
      (RegisterInParam ''a'' 4 (PInt 1), Inr PNone)]
     (RegisterInParam ''b'' 12 (PStr ''x'')) = Inl (HostError ''type mismatch'')"
proof -
  let ?pre = "[(CreateSProcCall ''sp_demo'' [] None False, Inr PNone),
            (RegisterInParam ''a'' 4 (PInt 1), Inr PNone),
            (RegisterInParam ''b'' 12 (PStr ''x''), Inr PNone),
            (RegisterOutParam ''o'' 4, Inr PNone),
            (RegisterReturnParam (Some 4), Inr PNone)]"
  have d1: "distinct (map fst (entries (in_params demo_args)))"
    by (simp add: demo_args_def sp_defaults_def)
  have d2: "distinct (map fst (entries (out_params demo_args)))"
    by (simp add: demo_args_def sp_defaults_def)
  have accepted: "map fst ?pre = registrations demo_args \<and> succeeded ?pre \<and>
                  genuine demo_host [] ?pre"
    by (simp add: demo_registrations demo_host_def)
  have run: "map fst (snd (execute_sp demo_host demo_args [])) =
     [CreateSProcCall ''sp_demo'' [] None False,
      RegisterInParam ''a'' 4 (PInt 1), RegisterInParam ''b'' 12 (PStr ''x''),
      RegisterOutParam ''o'' 4, RegisterReturnParam (Some 4), ExecSProcCall,
      GetOutParamValue ''o'', GetReturnValue]"
    by (simp add: demo_args_def demo_host_def db_eval)
  have reached: "ExecSProcCall \<in> set (map fst (snd (execute_sp demo_host demo_args [])))"
    unfolding run by simp
  have missed: "ExecSProcCall \<notin> set (map fst (snd (execute_sp rejecting_host demo_args [])))"
    unfolding rejecting_run by simp
  have exec: "respond demo_host ?pre ExecSProcCall = Inr PNone"
    by (simp add: demo_host_def)
  note inst = execute_sp_registers_then_executes [OF d1 d2]
  from inst [of demo_host] accepted
  have "prefix (?pre @ [(ExecSProcCall, respond demo_host ?pre ExecSProcCall)])
             (snd (execute_sp demo_host demo_args []))"
    by blast
  then have 1: "prefix (?pre @ [(ExecSProcCall, Inr PNone)])
             (snd (execute_sp demo_host demo_args []))"
    unfolding exec .
  from inst [of demo_host] reached
  have 2: "take (Suc (length (registrations demo_args))) (map fst (snd (execute_sp demo_host demo_args [])))
          = registrations demo_args @ [ExecSProcCall]"
    and 3: "count_list (map fst (snd (execute_sp demo_host demo_args []))) ExecSProcCall = 1"
    by blast+
  from inst [of rejecting_host] missed
  have "\<exists>pre c e. snd (execute_sp rejecting_host demo_args []) = pre @ [(c, Inl e)] \<and>
          respond rejecting_host pre c = Inl e \<and> c \<in> set (registrations demo_args)"
    by blast
  then have 4: "respond rejecting_host
     [(CreateSProcCall ''sp_demo'' [] None False, Inr PNone),
      (RegisterInParam ''a'' 4 (PInt 1), Inr PNone)]
     (RegisterInParam ''b'' 12 (PStr ''x'')) = Inl (HostError ''type mismatch'')"
    unfolding rejecting_run by auto
  have 5: "fst (execute_sp rejecting_host demo_args []) = Inl (HostError ''type mismatch'')"
    by (simp add: rejecting_run)
  note acc = accepted [THEN conjunct1] accepted [THEN conjunct2, THEN conjunct1]
    accepted [THEN conjunct2, THEN conjunct2]
  show ?thesis
    by (intro conjI) (fact d1 d2 demo_registrations acc 1 reached 2 3 missed 4 5)+
qed


text \<open>
  Claim C2. In the bundle that \<open>_execute_sp\<close> returns, a field differs from None
  only when its flag was set: \<open>output_params\<close> only with \<open>get_out_params\<close>,
  \<open>result_set\<close> only with \<open>get_result_set\<close>, \<open>return_value\<close> only with
  \<open>get_ret_val\<close>, \<open>update_count\<close> only with \<open>get_update_count\<close>. When
  \<open>output_params\<close> is populated, its keys are exactly the keys of the declared
  output-parameter dictionary.
\<close>

theorem execute_sp_populates_only_requested:
  assumes "distinct (map fst (entries (in_params a)))"
      and "distinct (map fst (entries (out_params a)))"
      and "fst (execute_sp h a t) = Inr r"
  shows "(output_params r \<noteq> None \<longrightarrow> get_out_params a) \<and>
         (result_set r \<noteq> PNone \<longrightarrow> get_result_set a) \<and>
         (return_value r \<noteq> PNone \<longrightarrow> get_ret_val a) \<and>
         (update_count r \<noteq> PNone \<longrightarrow> get_update_count a) \<and>
         (\<forall>m. output_params r = Some m \<longrightarrow> dom m = fst ` set (entries (out_params a)))"
proof -
  from assms(3) have run: "execute_sp h a t = (Inr r, snd (execute_sp h a t))"
    by (metis prod.collapse)
  from execute_sp_Inr [OF assms(1,2) run] obtain outs where
    "output_params r = (if get_out_params a then Some outs else None)"
    "dom outs = fst ` set (entries (out_params a))"
    "\<not> get_result_set a \<longrightarrow> result_set r = PNone"
    "\<not> get_ret_val a \<longrightarrow> return_value r = PNone"
    "\<not> get_update_count a \<longrightarrow> update_count r = PNone"
    by blast
  then show ?thesis by (auto split: if_splits)
qed

text \<open>
  Claim C5. An invocation of \<open>_execute_sp\<close> makes no host call twice and every
  recorded answer is the host's. If it raises, what it raises is the failure with
  which the host answered the last call made, every earlier call having
  succeeded: the failure is passed on as it is and nothing is attempted after
  it. If it returns a bundle, every described call was made and succeeded, and
  each requested facet holds the host's answer to its read-back.
\<close>

theorem execute_sp_bundle_or_failure:
  assumes "distinct (map fst (entries (in_params a)))"
      and "distinct (map fst (entries (out_params a)))"
  shows "genuine h [] (snd (execute_sp h a [])) \<and>
         distinct (map fst (snd (execute_sp h a []))) \<and>
         (case execute_sp h a [] of
            (Inl e, t) \<Rightarrow>
              (\<exists>pre c. t = pre @ [(c, Inl e)] \<and> respond h pre c = Inl e \<and> succeeded pre) \<and>
              prefix (map fst t) (registrations a @ ExecSProcCall # readbacks a)
          | (Inr r, t) \<Rightarrow>
              succeeded t \<and>
              map fst t = registrations a @ ExecSProcCall # readbacks a \<and>
              (get_out_params a \<longrightarrow>
                 (\<exists>m. output_params r = Some m \<and>
                    dom m = fst ` set (entries (out_params a)) \<and>
                    (\<forall>k\<in>fst ` set (entries (out_params a)).
                       \<exists>v. m k = Some v \<and> (GetOutParamValue k, Inr v) \<in> set t))) \<and>
              (get_result_set a \<longrightarrow> (GetResultSet, Inr (result_set r)) \<in> set t) \<and>
              (get_ret_val a \<longrightarrow> (GetReturnValue, Inr (return_value r)) \<in> set t) \<and>
              (get_update_count a \<longrightarrow> (GetUpdateCount, Inr (update_count r)) \<in> set t))"
proof -
  from execute_sp_transcript [OF assms, of h "[]"] have
    gen: "genuine h [] (snd (execute_sp h a []))" and
    pre: "prefix (map fst (snd (execute_sp h a []))) (registrations a @ ExecSProcCall # readbacks a)"
    by auto
  have dist: "distinct (map fst (snd (execute_sp h a [])))"
    using pre distinct_described [OF assms] by (metis distinct_append prefix_def)
  have cases: "case execute_sp h a [] of
            (Inl e, t) \<Rightarrow>
              (\<exists>pre c. t = pre @ [(c, Inl e)] \<and> respond h pre c = Inl e \<and> succeeded pre) \<and>
              prefix (map fst t) (registrations a @ ExecSProcCall # readbacks a)
          | (Inr r, t) \<Rightarrow>
              succeeded t \<and>
              map fst t = registrations a @ ExecSProcCall # readbacks a \<and>
              (get_out_params a \<longrightarrow>
                 (\<exists>m. output_params r = Some m \<and>
                    dom m = fst ` set (entries (out_params a)) \<and>
                    (\<forall>k\<in>fst ` set (entries (out_params a)).
                       \<exists>v. m k = Some v \<and> (GetOutParamValue k, Inr v) \<in> set t))) \<and>
              (get_result_set a \<longrightarrow> (GetResultSet, Inr (result_set r)) \<in> set t) \<and>
              (get_ret_val a \<longrightarrow> (GetReturnValue, Inr (return_value r)) \<in> set t) \<and>
              (get_update_count a \<longrightarrow> (GetUpdateCount, Inr (update_count r)) \<in> set t)"
  proof (cases "execute_sp h a []")
    case (Pair res t)
    show ?thesis
    proof (cases res)
      case (Inl e)
      from execute_sp_Inl [OF assms Pair [unfolded Inl]] pre Pair
      show ?thesis unfolding Pair Inl by auto
    next
      case (Inr r)
      note run = Pair [unfolded Inr]
      from execute_sp_Inr_calls [OF assms run] have
        ok: "succeeded t" "map fst t = registrations a @ ExecSProcCall # readbacks a"
        by auto
      from execute_sp_Inr [OF assms run] obtain pre outs where f:
        "t = pre @ facet_answers a r"
        "output_params r = (if get_out_params a then Some outs else None)"
        "dom outs = fst ` set (entries (out_params a))"
        "\<forall>k\<in>fst ` set (entries (out_params a)).
              \<exists>v. outs k = Some v \<and> (GetOutParamValue k, Inr v) \<in> set pre"
        by auto
      have "get_out_params a \<longrightarrow>
                 (\<exists>m. output_params r = Some m \<and>
                    dom m = fst ` set (entries (out_params a)) \<and>
                    (\<forall>k\<in>fst ` set (entries (out_params a)).
                       \<exists>v. m k = Some v \<and> (GetOutParamValue k, Inr v) \<in> set t))"
        using f by auto
      moreover have "get_result_set a \<longrightarrow> (GetResultSet, Inr (result_set r)) \<in> set t"
        and "get_ret_val a \<longrightarrow> (GetReturnValue, Inr (return_value r)) \<in> set t"
        and "get_update_count a \<longrightarrow> (GetUpdateCount, Inr (update_count r)) \<in> set t"
        unfolding f(1) by (simp_all add: facet_answers_def)
      ultimately show ?thesis unfolding Pair Inr using ok by simp
    qed
  qed
  from gen dist cases show ?thesis by simp
qed









lemma demo_args_distinct:
  "distinct (map fst (entries (in_params demo_args)))"
  "distinct (map fst (entries (out_params demo_args)))"
  by (simp_all add: demo_args_def sp_defaults_def)

lemma demo_run:
  "execute_sp demo_host demo_args [] =
     (Inr \<lparr>output_params = Some [''o'' \<mapsto> PBool True], result_set = PNone,
           return_value = PInt 0, update_count = PNone\<rparr>,
      [(CreateSProcCall ''sp_demo'' [] None False, Inr PNone),
       (RegisterInParam ''a'' 4 (PInt 1), Inr PNone),
       (RegisterInParam ''b'' 12 (PStr ''x''), Inr PNone),
       (RegisterOutParam ''o'' 4, Inr PNone),
       (RegisterReturnParam (Some 4), Inr PNone),
       (ExecSProcCall, Inr PNone),
       (GetOutParamValue ''o'', Inr (PBool True)),
       (GetReturnValue, Inr (PInt 0))])"
  by (simp add: demo_args_def demo_host_def db_eval)

lemma failing_run:
  "execute_sp failing_host demo_args [] =
     (Inl (HostError ''connection lost''),
      [(CreateSProcCall ''sp_demo'' [] None False, Inr PNone),
       (RegisterInParam ''a'' 4 (PInt 1), Inr PNone),
       (RegisterInParam ''b'' 12 (PStr ''x''), Inr PNone),
       (RegisterOutParam ''o'' 4, Inr PNone),
       (RegisterReturnParam (Some 4), Inr PNone),
       (ExecSProcCall, Inl (HostError ''connection lost''))])"
  by (simp add: demo_args_def failing_host_def db_eval)

text \<open>The theorem at concrete inputs.\<close>

theorem execute_sp_populates_only_requested_witness:
  "distinct (map fst (entries (in_params demo_args))) \<and>
   distinct (map fst (entries (out_params demo_args))) \<and>
   fst (execute_sp demo_host demo_args []) =
     Inr \<lparr>output_params = Some [''o'' \<mapsto> PBool True], result_set = PNone,
          return_value = PInt 0, update_count = PNone\<rparr> \<and>
   get_out_params demo_args \<and> get_ret_val demo_args \<and>
   \<not> get_result_set demo_args \<and> \<not> get_update_count demo_args \<and>
   dom [''o'' \<mapsto> PBool True] = fst ` set (entries (out_params demo_args))"
proof -
  have run: "fst (execute_sp demo_host demo_args []) =
     Inr \<lparr>output_params = Some [''o'' \<mapsto> PBool True], result_set = PNone,
          return_value = PInt 0, update_count = PNone\<rparr>"
    by (simp add: demo_run)
  from execute_sp_populates_only_requested [OF demo_args_distinct run]
  have "get_out_params demo_args" "get_ret_val demo_args"
    "dom [''o'' \<mapsto> PBool True] = fst ` set (entries (out_params demo_args))"
    by simp_all
  moreover have "\<not> get_result_set demo_args" "\<not> get_update_count demo_args"
    by (simp_all add: demo_args_def sp_defaults_def)
  ultimately show ?thesis using demo_args_distinct run by simp
qed

text \<open>The theorem at concrete inputs.\<close>

theorem execute_sp_bundle_or_failure_witness:
  "distinct (map fst (entries (in_params demo_args))) \<and>
   distinct (map fst (entries (out_params demo_args))) \<and>
   fst (execute_sp failing_host demo_args []) = Inl (HostError ''connection lost'') \<and>
   respond failing_host (butlast (snd (execute_sp failing_host demo_args []))) ExecSProcCall
     = Inl (HostError ''connection lost'') \<and>
   map fst (snd (execute_sp failing_host demo_args [])) = registrations demo_args @ [ExecSProcCall] \<and>
   (\<exists>r. fst (execute_sp demo_host demo_args []) = Inr r \<and>
      (GetReturnValue, Inr (return_value r)) \<in> set (snd (execute_sp demo_host demo_args []))) \<and>
   map fst (snd (execute_sp demo_host demo_args []))
     = registrations demo_args @ ExecSProcCall # readbacks demo_args"
proof -
  have flags: "get_ret_val demo_args"
    by (simp add: demo_args_def sp_defaults_def)
  have regs: "registrations demo_args =
     [CreateSProcCall ''sp_demo'' [] None False,
      RegisterInParam ''a'' 4 (PInt 1), RegisterInParam ''b'' 12 (PStr ''x''),
      RegisterOutParam ''o'' 4, RegisterReturnParam (Some 4)]"
    by (simp add: demo_args_def db_eval)
  from execute_sp_bundle_or_failure [OF demo_args_distinct, of failing_host]
  have bad: "respond failing_host (butlast (snd (execute_sp failing_host demo_args []))) ExecSProcCall
     = Inl (HostError ''connection lost'')"
    unfolding failing_run by auto
  from execute_sp_bundle_or_failure [OF demo_args_distinct, of demo_host] flags
  have good: "(GetReturnValue, Inr (PInt 0)) \<in> set (snd (execute_sp demo_host demo_args []))"
    and calls: "map fst (snd (execute_sp demo_host demo_args []))
     = registrations demo_args @ ExecSProcCall # readbacks demo_args"
    unfolding demo_run by simp_all
  show ?thesis
    using demo_args_distinct bad good calls regs
    by (simp add: failing_run demo_run)
qed








section \<open>Properties of the user module\<close>

text \<open>
  Claim C9. For an identity view built from a user whose first name is the
  string \<open>f\<close> and whose last name is the string \<open>l\<close>, \<open>get_full_name\<close> returns
  \<open>f\<close>, one space, \<open>l\<close>.
\<close>

theorem get_full_name_joins:
  assumes "FirstName user = PStr f" and "LastName user = PStr l"
  shows "get_full_name (User_init user) = Inr (f @ '' '' @ l)"
  using assms by (simp add: get_full_name_def User_init_def)

text \<open>The theorem at concrete inputs.\<close>

theorem get_full_name_joins_witness:
  "FirstName alice = PStr ''Alice'' \<and> LastName alice = PStr ''Liddell'' \<and>
   get_full_name (User_init alice) = Inr ''Alice Liddell''"
proof -
  have f: "FirstName alice = PStr ''Alice''" and l: "LastName alice = PStr ''Liddell''"
    by (simp_all add: alice_def)
  from get_full_name_joins [OF f l] f l show ?thesis by simp
qed

lemma add_emails_eq:
  "add_emails role user es S =
     (if role \<noteq> [] \<longrightarrow> role \<in> set (getRoles user) then S \<union> set es else S)"
  by (induction es arbitrary: S) auto

lemma collect_emails_eq:
  "collect_emails role users S =
     S \<union> {contact_value ci | u ci. u \<in> set users \<and> ci \<in> set (getContactInfo u) \<and>
            contactType ci = ''email'' \<and> (role \<noteq> [] \<longrightarrow> role \<in> set (getRoles u))}"
proof (induction users arbitrary: S)
  case Nil
  then show ?case by simp
next
  case (Cons u users)
  show ?case
    unfolding collect_emails.simps Cons.IH add_emails_eq
    by (auto simp: image_iff)
qed

lemma collect_emails_finite: "finite S \<Longrightarrow> finite (collect_emails role users S)"
  by (induction users arbitrary: S) (simp_all add: add_emails_eq)

text \<open>
  Claim C4. When the host delivers the users of the source, \<open>get_emails\<close>
  returns a sorted list without duplicates whose elements are, with no role
  filter, exactly the contact values of type "email" of all users, and with a
  role filter exactly those of the users that hold the role. An address shared
  by two users therefore occurs once.
\<close>

theorem get_emails_sorted_union:
  assumes "getUsers h user_source = Inr users"
  shows "\<exists>es. fst (get_emails h user_source filter_role log) = Inr es \<and>
           sorted es \<and> distinct es \<and>
           set es =
             (if filter_role = []
              then {contact_value ci | u ci. u \<in> set users \<and> ci \<in> set (getContactInfo u) \<and>
                      contactType ci = ''email''}
              else {contact_value ci | u ci. u \<in> set users \<and> ci \<in> set (getContactInfo u) \<and>
                      contactType ci = ''email'' \<and> filter_role \<in> set (getRoles u)})"
proof -
  let ?S = "collect_emails filter_role users {}"
  have run: "fst (get_emails h user_source filter_role log) = Inr (sorted_list_of_set ?S)"
    using assms by (simp add: get_emails_def bnd_def ret_def call_getUsers_def)
  have fin: "finite ?S" by (simp add: collect_emails_finite)
  have "set (sorted_list_of_set ?S) = ?S" using fin by simp
  moreover have "sorted (sorted_list_of_set ?S)" "distinct (sorted_list_of_set ?S)"
    by simp_all
  ultimately show ?thesis
    unfolding run by (auto simp: collect_emails_eq)
qed

lemma plant_emails:
  "collect_emails role [alice, bob] {} =
     (if role = [] then set [''alice@example.com'', ''team@example.com'']
      else if role = ''Operator'' then set [''alice@example.com'', ''team@example.com'']
      else if role = ''Administrator'' then set [''team@example.com'']
      else {})"
  by (auto simp: alice_def bob_def)

lemma plant_sorted:
  "sorted_list_of_set (set [''alice@example.com'', ''team@example.com''])
     = [''alice@example.com'', ''team@example.com'']"
  "sorted_list_of_set (set [''team@example.com'']) = [''team@example.com'']"
  by (rule sorted_list_of_set.idem_if_sorted_distinct; simp)+

text \<open>The theorem at concrete inputs.\<close>

theorem get_emails_sorted_union_witness:
  "getUsers plant_host ''main'' = Inr [alice, bob] \<and>
   fst (get_emails plant_host ''main'' [] []) = Inr [''alice@example.com'', ''team@example.com''] \<and>
   fst (get_emails plant_host ''main'' ''Administrator'' []) = Inr [''team@example.com''] \<and>
   set [''team@example.com''] =
     {contact_value ci | u ci. u \<in> set [alice, bob] \<and> ci \<in> set (getContactInfo u) \<and>
        contactType ci = ''email'' \<and> ''Administrator'' \<in> set (getRoles u)}"
proof -
  have users: "getUsers plant_host ''main'' = Inr [alice, bob]"
    by (simp add: plant_host_def)
  have all: "fst (get_emails plant_host ''main'' [] []) = Inr [''alice@example.com'', ''team@example.com'']"
    using plant_emails [of "[]"] plant_sorted
    by (simp add: get_emails_def bnd_def ret_def call_getUsers_def plant_host_def)
  have adm: "fst (get_emails plant_host ''main'' ''Administrator'' []) = Inr [''team@example.com'']"
    using plant_emails [of "''Administrator''"] plant_sorted
    by (simp add: get_emails_def bnd_def ret_def call_getUsers_def plant_host_def)
  from get_emails_sorted_union [OF users, of "''Administrator''" "[]"]
  have "set [''team@example.com''] =
     {contact_value ci | u ci. u \<in> set [alice, bob] \<and> ci \<in> set (getContactInfo u) \<and>
        contactType ci = ''email'' \<and> ''Administrator'' \<in> set (getRoles u)}"
    unfolding adm by simp
  with users all adm show ?thesis by simp
qed

lemmas user_eval = get_user_def bnd_def ret_def call_getUsername_def call_getUser_def

text \<open>
  Claim C3, as amended. For a non-empty primary source name: when the logged-in
  user is found in the primary source, the view of that user is returned; when
  the primary source has no such user and a non-empty failover name is given,
  the outcome of the failover lookup is returned (a view when it finds the
  user); when neither finds the user, or no failover is given, None is returned
  and nothing is raised.
\<close>

theorem get_user_lookup:
  assumes "getUsername h = Inr name" and "user_source \<noteq> []"
  shows "(\<forall>u. getUser h user_source name = Inr (Some u) \<longrightarrow>
            fst (get_user h user_source failover log) = Inr (Some (User_init u))) \<and>
         (\<forall>f. getUser h user_source name = Inr None \<longrightarrow> failover = Some f \<longrightarrow> f \<noteq> [] \<longrightarrow>
            fst (get_user h user_source failover log) =
              (case getUser h f name of
                 Inl e \<Rightarrow> Inl e
               | Inr None \<Rightarrow> Inr None
               | Inr (Some u) \<Rightarrow> Inr (Some (User_init u)))) \<and>
         (getUser h user_source name = Inr None \<longrightarrow>
            (failover = None \<or> failover = Some [] \<or>
             (\<exists>f. failover = Some f \<and> getUser h f name = Inr None)) \<longrightarrow>
            fst (get_user h user_source failover log) = Inr None)"
  using assms
  by (cases failover) (auto simp: user_eval split: sum.splits option.splits)

text \<open>
  Claim C3 as stated fails for the empty primary source name: the host would find
  the user in that source, but the lookup is skipped and None is returned.
\<close>

theorem get_user_blank_source_counterexample:
  "getUsername plant_host = Inr ''alice'' \<and>
   getUser plant_host [] ''alice'' = Inr (Some alice) \<and>
   get_user plant_host [] None [] = (Inr None, [GetUsername])"
  by (simp add: user_eval plant_host_def)

text \<open>The theorem at concrete inputs.\<close>

theorem get_user_lookup_witness:
  "getUsername plant_host = Inr ''alice'' \<and> ''main'' \<noteq> [] \<and> ''empty'' \<noteq> [] \<and>
   getUser plant_host ''main'' ''alice'' = Inr (Some alice) \<and>
   fst (get_user plant_host ''main'' None []) = Inr (Some (User_init alice)) \<and>
   getUser plant_host ''empty'' ''alice'' = Inr None \<and>
   fst (get_user plant_host ''empty'' (Some ''backup'') []) = Inr (Some (User_init alice)) \<and>
   fst (get_user plant_host ''empty'' None []) = Inr None"
proof -
  have name: "getUsername plant_host = Inr ''alice''"
    and found: "getUser plant_host ''main'' ''alice'' = Inr (Some alice)"
    and absent: "getUser plant_host ''empty'' ''alice'' = Inr None"
    and backup: "getUser plant_host ''backup'' ''alice'' = Inr (Some alice)"
    by (simp_all add: plant_host_def)
  have ne: "''main'' \<noteq> []" "''empty'' \<noteq> []" by simp_all
  from get_user_lookup [OF name ne(1), of None "[]"] found
  have 1: "fst (get_user plant_host ''main'' None []) = Inr (Some (User_init alice))"
    by simp
  from get_user_lookup [OF name ne(2), of "Some ''backup''" "[]"] absent backup
  have 2: "fst (get_user plant_host ''empty'' (Some ''backup'') []) = Inr (Some (User_init alice))"
    by simp
  from get_user_lookup [OF name ne(2), of None "[]"] absent
  have 3: "fst (get_user plant_host ''empty'' None []) = Inr None"
    by simp
  from name ne found absent 1 2 3 show ?thesis by simp
qed



end
